theory Spec2Isabelle
  imports Complex_Main "HOL-Library.Word"
begin

section \<open>Data model\<close>

text \<open>
  A string of the program is a sequence of UTF-16 code units; \<open>length\<close> is the number
  of code units, as \<open>str.length\<close> is. String literals of the source are written
  \<open>str ''...''\<close>.

  A number of the source is a double. A number that holds an integer (a count, an
  index, the argument of the number utilities) is the \<open>int\<close> of that value; every
  integer of magnitude up to \<open>2 ^ 53\<close> is a double, and above that only some are. On
  such numbers \<open>%\<close>, the halving \<open>n / 2\<close> and \<open>Math.floor\<close> are exact, and the sum of
  two of them is the exact sum rounded to the nearest double, \<open>roundDouble\<close>. The
  not-a-number value that \<open>%\<close> yields for a zero divisor is \<open>None\<close>. A loop of the
  source that may run forever returns an \<open>option\<close>: \<open>None\<close> is not returning.

  The result of converting a string to a number is a \<open>jsnumber\<close>: not-a-number, an
  infinity, or a finite number \<open>Finite q\<close>, where \<open>q\<close> is the value that the literal
  denotes, before it is rounded to the nearest double.

  A parameter with a default value is an \<open>option\<close>: \<open>None\<close> is the omitted argument.
\<close>

type_synonym jsstring = "16 word list"

definition str :: "string \<Rightarrow> jsstring" where
  "str cs = map of_char cs"

datatype jsnumber = NaN | PosInfinity | NegInfinity | Finite rat

definition defaultArg :: "'a \<Rightarrow> 'a option \<Rightarrow> 'a" where
  "defaultArg d arg = (case arg of None \<Rightarrow> d | Some x \<Rightarrow> x)"

section \<open>Operations of the language that the utilities call\<close>

subsection \<open>Arithmetic, arrays and conversion of numbers to strings\<close>

text \<open>
  The remainder operator \<open>n % d\<close>: the result has the sign of the dividend and the
  magnitude of \<open>\<bar>n\<bar> mod \<bar>d\<bar>\<close>; a zero divisor gives not-a-number.
\<close>

definition jsRem :: "int \<Rightarrow> int \<Rightarrow> int option" where
  "jsRem n d = (if d = 0 then None else Some (sgn n * (\<bar>n\<bar> mod \<bar>d\<bar>)))"

text \<open>
  The double nearest to an integer: a double has 53 significant bits, and a tie goes
  to the neighbour whose last bit is 0. \<open>bitLength\<close> is the number of bits of a
  positive integer. The overflow to an infinity, at a magnitude of \<open>2 ^ 1024\<close>, is
  left out.
\<close>

function bitLength :: "int \<Rightarrow> nat" where
  "bitLength n = (if n \<le> 0 then 0 else Suc (bitLength (n div 2)))"
  by pat_completeness auto
termination
  by (relation "measure nat") auto

declare bitLength.simps [simp del]

definition roundDouble :: "int \<Rightarrow> int" where
  "roundDouble x =
     (let a = \<bar>x\<bar>;
          q = 2 ^ (bitLength a - 53);
          lo = (a div q) * q;
          r = a mod q
      in sgn x * (if 2 * r < q then lo
                  else if q < 2 * r then lo + q
                  else if even (a div q) then lo else lo + q))"

text \<open>
  \<open>xs[k]\<close> for a number \<open>k\<close>: the element when \<open>k\<close> is an index of the array, and
  \<open>undefined\<close> (\<open>None\<close>) when \<open>k\<close> is negative, too large or not a number.
\<close>

definition arrayGet :: "'a list \<Rightarrow> int option \<Rightarrow> 'a option" where
  "arrayGet xs k =
     (case k of
        None \<Rightarrow> None
      | Some i \<Rightarrow> if 0 \<le> i \<and> i < int (length xs) then Some (xs ! nat i) else None)"

text \<open>
  \<open>a || b\<close> on values that are a string or \<open>undefined\<close>: \<open>a\<close> when it is truthy, that
  is a string that is not empty, and \<open>b\<close> otherwise.
\<close>

definition orElse :: "jsstring option \<Rightarrow> jsstring option \<Rightarrow> jsstring option" where
  "orElse a b = (case a of None \<Rightarrow> b | Some s \<Rightarrow> if s = [] then b else Some s)"

text \<open>\<open>s + a\<close> for a string \<open>s\<close>: \<open>undefined\<close> is appended as the text \<open>undefined\<close>.\<close>

definition concatValue :: "jsstring \<Rightarrow> jsstring option \<Rightarrow> jsstring" where
  "concatValue s a = s @ (case a of None \<Rightarrow> str ''undefined'' | Some t \<Rightarrow> t)"

text \<open>
  The conversion of a number to a string, for a double \<open>n\<close> that is an integer. The
  digits are those of the decimal number with the fewest significant digits that rounds
  to \<open>\<bar>n\<bar>\<close>, the nearest one if there are several: \<open>shortest_loop\<close> tries \<open>k = 1, 2, ...\<close>
  significant digits and, for each, the two numbers of \<open>k\<close> digits next to \<open>\<bar>n\<bar>\<close>. A
  number of at most 21 digits is written out in full, a longer one in exponent form:
  the first significant digit, the others after a point, \<open>e+\<close> and the exponent. A
  negative number has a minus sign in front.
\<close>

function digitsOf :: "int \<Rightarrow> jsstring" where
  "digitsOf n =
     (if n < 10 then [of_int (48 + n)]
      else digitsOf (n div 10) @ [of_int (48 + n mod 10)])"
  by pat_completeness auto
termination
  by (relation "measure nat") auto

declare digitsOf.simps [simp del]

function shortest_loop :: "int \<Rightarrow> nat \<Rightarrow> nat \<Rightarrow> int" where
  "shortest_loop v d k =
     (if d \<le> k then v
      else
        let p = 10 ^ (d - k);
            lo = (v div p) * p;
            hi = lo + p
        in if roundDouble lo = v \<and> roundDouble hi = v
           then (if v - lo \<le> hi - v then lo else hi)
           else if roundDouble lo = v then lo
           else if roundDouble hi = v then hi
           else shortest_loop v d (Suc k))"
  by pat_completeness auto
termination
  by (relation "measure (\<lambda>(v, d, k). d - k)") auto

declare shortest_loop.simps [simp del]

definition shortestDecimal :: "int \<Rightarrow> int" where
  "shortestDecimal v =
     shortest_loop v (length (digitsOf v)) 1"

definition exponentForm :: "jsstring \<Rightarrow> jsstring" where
  "exponentForm ds =
     (let sig = rev (dropWhile (\<lambda>c. c = 0x30) (rev ds))
      in hd sig # (if tl sig = [] then [] else 0x2E # tl sig)
         @ str ''e+'' @ digitsOf (int (length ds) - 1))"

definition numberToString :: "int \<Rightarrow> jsstring" where
  "numberToString n =
     (let ds = digitsOf (shortestDecimal \<bar>n\<bar>)
      in (if n < 0 then [0x2D] else [])
         @ (if length ds \<le> 21 then ds else exponentForm ds))"

text \<open>The number that a string of decimal digits denotes.\<close>

definition decimalValue :: "jsstring \<Rightarrow> int" where
  "decimalValue ds = foldl (\<lambda>a d. 10 * a + (uint d - 48)) 0 ds"

subsection \<open>Regular expressions and \<open>String.prototype.replace\<close>\<close>

text \<open>
  Every regular expression of the functions below is a sequence of character classes,
  each matching one code unit, some of them in a capture group: \<open>/./\<close>, \<open>/&/\<close>,
  \<open>/</\<close>, \<open>/>/\<close> and \<open>/([a-z])([A-Z])/\<close>, all with the flag \<open>g\<close> and none with the
  flags \<open>s\<close>, \<open>i\<close> or \<open>u\<close>. An \<open>atom\<close> is one such class; \<open>matchPrefix\<close> matches the
  sequence at the start of a string and gives the matched text and the captures.
\<close>

datatype atom = Class "16 word \<Rightarrow> bool" | Group "16 word \<Rightarrow> bool"

fun accepts :: "atom \<Rightarrow> 16 word \<Rightarrow> bool" where
  "accepts (Class P) c = P c"
| "accepts (Group P) c = P c"

fun captures :: "atom \<Rightarrow> 16 word \<Rightarrow> jsstring list" where
  "captures (Class P) c = []"
| "captures (Group P) c = [[c]]"

fun matchPrefix :: "atom list \<Rightarrow> jsstring \<Rightarrow> (jsstring \<times> jsstring list) option" where
  "matchPrefix [] s = Some ([], [])"
| "matchPrefix (a # as) [] = None"
| "matchPrefix (a # as) (c # s) =
     (if accepts a c
      then (case matchPrefix as s of
              None \<Rightarrow> None
            | Some (m, caps) \<Rightarrow> Some (c # m, captures a c @ caps))
      else None)"

text \<open>
  The classes: \<open>.\<close> is every code unit but the line terminators (line feed, carriage
  return, U+2028 and U+2029); a literal character; a range such as \<open>[a-z]\<close>.
\<close>

definition isLineTerminator :: "16 word \<Rightarrow> bool" where
  "isLineTerminator c = (c = 0x000A \<or> c = 0x000D \<or> c = 0x2028 \<or> c = 0x2029)"

definition dot :: "16 word \<Rightarrow> bool" where
  "dot c = (\<not> isLineTerminator c)"

definition lit :: "char \<Rightarrow> 16 word \<Rightarrow> bool" where
  "lit x c = (c = of_char x)"

definition unitRange :: "char \<Rightarrow> char \<Rightarrow> 16 word \<Rightarrow> bool" where
  "unitRange x y c = (of_char x \<le> c \<and> c \<le> of_char y)"

definition isDecimalDigit :: "16 word \<Rightarrow> bool" where
  "isDecimalDigit c = (0x30 \<le> c \<and> c \<le> 0x39)"

text \<open>
  The expansion of a replacement text for one match: \<open>$$\<close> is a dollar sign, \<open>$&\<close>
  the matched text, \<open>$`\<close> the text before the match, \<open>$'\<close> the text after it, and
  \<open>$n\<close> or \<open>$nn\<close> the capture of that number when the pattern has one; every other
  code unit stands for itself.
\<close>

definition captureRef :: "jsstring list \<Rightarrow> int \<Rightarrow> jsstring option" where
  "captureRef caps index =
     (if 1 \<le> index \<and> index \<le> int (length caps) then Some (caps ! nat (index - 1)) else None)"

definition twoDigitRef :: "jsstring list \<Rightarrow> 16 word \<Rightarrow> jsstring \<Rightarrow> jsstring option" where
  "twoDigitRef caps d t =
     (case t of
        [] \<Rightarrow> None
      | e # t' \<Rightarrow>
          if isDecimalDigit e then captureRef caps (10 * (uint d - 48) + (uint e - 48))
          else None)"

fun getSubstitution ::
  "jsstring \<Rightarrow> jsstring \<Rightarrow> jsstring \<Rightarrow> jsstring list \<Rightarrow> jsstring \<Rightarrow> jsstring" where
  "getSubstitution matched pre post caps (c # d # t) =
     (if c \<noteq> 0x24 then c # getSubstitution matched pre post caps (d # t)
      else if d = 0x24 then 0x24 # getSubstitution matched pre post caps t
      else if d = 0x26 then matched @ getSubstitution matched pre post caps t
      else if d = 0x60 then pre @ getSubstitution matched pre post caps t
      else if d = 0x27 then post @ getSubstitution matched pre post caps t
      else if isDecimalDigit d then
        (case twoDigitRef caps d t of
           Some cap \<Rightarrow> cap @ getSubstitution matched pre post caps (tl t)
         | None \<Rightarrow>
             (case captureRef caps (uint d - 48) of
                Some cap \<Rightarrow> cap @ getSubstitution matched pre post caps t
              | None \<Rightarrow> c # getSubstitution matched pre post caps (d # t)))
      else c # getSubstitution matched pre post caps (d # t))"
| "getSubstitution matched pre post caps t = t"

text \<open>
  \<open>s.replace(/pat/g, tmpl)\<close>: the matches are found from left to right and do not
  overlap; the text between them is kept. \<open>pre\<close> is the part of the string before the
  position that the loop has reached. After an empty match the loop moves on by one code
  unit.
\<close>

function replace_loop :: "atom list \<Rightarrow> jsstring \<Rightarrow> jsstring \<Rightarrow> jsstring \<Rightarrow> jsstring" where
  "replace_loop pat tmpl pre [] =
     (case matchPrefix pat [] of
        None \<Rightarrow> []
      | Some (m, caps) \<Rightarrow> getSubstitution m pre [] caps tmpl)"
| "replace_loop pat tmpl pre (c # s) =
     (case matchPrefix pat (c # s) of
        None \<Rightarrow> c # replace_loop pat tmpl (pre @ [c]) s
      | Some (m, caps) \<Rightarrow>
          if m = []
          then getSubstitution m pre (c # s) caps tmpl
               @ c # replace_loop pat tmpl (pre @ [c]) s
          else getSubstitution m pre (drop (length m) (c # s)) caps tmpl
               @ replace_loop pat tmpl (pre @ m) (drop (length m) (c # s)))"
  by pat_completeness auto
termination
  by (relation "measure (\<lambda>(pat, tmpl, pre, s). length s)") auto

definition replaceAll :: "atom list \<Rightarrow> jsstring \<Rightarrow> jsstring \<Rightarrow> jsstring" where
  "replaceAll pat tmpl s = replace_loop pat tmpl [] s"

subsection \<open>\<open>slice\<close> and \<open>split\<close>\<close>

text \<open>
  \<open>s.slice(start, fin)\<close>: a negative bound counts from the end of the string, and both
  bounds are clamped to the string.
\<close>

definition slice_str :: "jsstring \<Rightarrow> int \<Rightarrow> int \<Rightarrow> jsstring" where
  "slice_str s start fin =
     (let len = int (length s);
          from = (if start < 0 then max (len + start) 0 else min start len);
          to = (if fin < 0 then max (len + fin) 0 else min fin len)
      in if to \<le> from then [] else take (nat (to - from)) (drop (nat from) s))"

text \<open>
  \<open>s.split(sep)\<close> for a string \<open>sep\<close> and no limit: with the empty separator, the code
  units of \<open>s\<close>, one string each (none for the empty string); otherwise the pieces
  between the occurrences of \<open>sep\<close>, found from left to right, \<open>cur\<close> being the piece
  that the loop is reading.
\<close>

function split_loop :: "jsstring \<Rightarrow> jsstring \<Rightarrow> jsstring \<Rightarrow> jsstring list" where
  "split_loop sep cur s =
     (if s = [] then [cur]
      else if sep \<noteq> [] \<and> take (length sep) s = sep
      then cur # split_loop sep [] (drop (length sep) s)
      else split_loop sep (cur @ [hd s]) (tl s))"
  by pat_completeness auto
termination
  by (relation "measure (\<lambda>(sep, cur, s). length s)") auto

declare split_loop.simps [simp del]

definition split :: "jsstring \<Rightarrow> jsstring \<Rightarrow> jsstring list" where
  "split s sep = (if sep = [] then map (\<lambda>c. [c]) s else split_loop sep [] s)"

subsection \<open>Conversion of a string to a number\<close>

text \<open>
  The unary \<open>+\<close> on a string: the string is a numeric literal between optional white
  space, or it converts to not-a-number. The white space is the white space and the
  line terminators of the language. The empty literal is \<open>0\<close>; a literal is a binary,
  octal or hexadecimal integer without sign, or a decimal literal with an optional sign:
  \<open>Infinity\<close>, or digits with an optional fraction and an optional exponent. A value of
  magnitude \<open>2 ^ 1024 - 2 ^ 970\<close> or more rounds to an infinity.
\<close>

definition isStrWhiteSpaceChar :: "16 word \<Rightarrow> bool" where
  "isStrWhiteSpaceChar c =
     (c \<in> set [0x0009, 0x000B, 0x000C, 0xFEFF, 0x0020, 0x00A0, 0x1680, 0x202F, 0x205F, 0x3000]
      \<or> (0x2000 \<le> c \<and> c \<le> 0x200A)
      \<or> isLineTerminator c)"

definition trimWhiteSpace :: "jsstring \<Rightarrow> jsstring" where
  "trimWhiteSpace s =
     rev (dropWhile isStrWhiteSpaceChar (rev (dropWhile isStrWhiteSpaceChar s)))"

definition digitValue :: "16 word \<Rightarrow> int option" where
  "digitValue c =
     (if 0x30 \<le> c \<and> c \<le> 0x39 then Some (uint c - 0x30)
      else if 0x61 \<le> c \<and> c \<le> 0x66 then Some (uint c - 0x57)
      else if 0x41 \<le> c \<and> c \<le> 0x46 then Some (uint c - 0x37)
      else None)"

fun digits_loop :: "int \<Rightarrow> int \<Rightarrow> jsstring \<Rightarrow> int option" where
  "digits_loop base acc [] = Some acc"
| "digits_loop base acc (c # s) =
     (case digitValue c of
        None \<Rightarrow> None
      | Some d \<Rightarrow> if d < base then digits_loop base (base * acc + d) s else None)"

definition digitsValue :: "int \<Rightarrow> jsstring \<Rightarrow> int option" where
  "digitsValue base s = (if s = [] then None else digits_loop base 0 s)"

definition exponentPart :: "jsstring \<Rightarrow> int option" where
  "exponentPart s =
     (case s of
        [] \<Rightarrow> Some 0
      | c # r \<Rightarrow>
          if c = 0x65 \<or> c = 0x45 then
            (case r of
               [] \<Rightarrow> None
             | d # ds \<Rightarrow>
                 if d = 0x2B then digitsValue 10 ds
                 else if d = 0x2D then map_option uminus (digitsValue 10 ds)
                 else digitsValue 10 r)
          else None)"

definition scale10 :: "rat \<Rightarrow> int \<Rightarrow> rat" where
  "scale10 q e = (if 0 \<le> e then q * 10 ^ nat e else q / 10 ^ nat (- e))"

definition roundToNumber :: "rat \<Rightarrow> jsnumber" where
  "roundToNumber q =
     (if 2 ^ 1024 - 2 ^ 970 \<le> q then PosInfinity
      else if q \<le> - (2 ^ 1024 - 2 ^ 970) then NegInfinity
      else Finite q)"

definition strUnsignedDecimalLiteral :: "jsstring \<Rightarrow> jsnumber" where
  "strUnsignedDecimalLiteral s =
     (if s = str ''Infinity'' then PosInfinity
      else
        let ip = takeWhile isDecimalDigit s;
            r = dropWhile isDecimalDigit s;
            hasDot = (r \<noteq> [] \<and> hd r = 0x2E);
            fp = (if hasDot then takeWhile isDecimalDigit (tl r) else []);
            r' = (if hasDot then dropWhile isDecimalDigit (tl r) else r)
        in if ip = [] \<and> fp = [] then NaN
           else (case exponentPart r' of
                   None \<Rightarrow> NaN
                 | Some e \<Rightarrow>
                     roundToNumber
                       (scale10 (of_int (decimalValue (ip @ fp))) (e - int (length fp)))))"

definition nonDecimalIntegerLiteral :: "jsstring \<Rightarrow> int option" where
  "nonDecimalIntegerLiteral s =
     (case s of
        z # x # ds \<Rightarrow>
          if z \<noteq> 0x30 then None
          else if x = 0x62 \<or> x = 0x42 then digitsValue 2 ds
          else if x = 0x6F \<or> x = 0x4F then digitsValue 8 ds
          else if x = 0x78 \<or> x = 0x58 then digitsValue 16 ds
          else None
      | _ \<Rightarrow> None)"

fun negateNumber :: "jsnumber \<Rightarrow> jsnumber" where
  "negateNumber NaN = NaN"
| "negateNumber PosInfinity = NegInfinity"
| "negateNumber NegInfinity = PosInfinity"
| "negateNumber (Finite q) = Finite (- q)"

definition stringToNumber :: "jsstring \<Rightarrow> jsnumber" where
  "stringToNumber s =
     (let t = trimWhiteSpace s in
      if t = [] then Finite 0
      else
        (case nonDecimalIntegerLiteral t of
           Some v \<Rightarrow> roundToNumber (of_int v)
         | None \<Rightarrow>
             if hd t = 0x2B then strUnsignedDecimalLiteral (tl t)
             else if hd t = 0x2D then negateNumber (strUnsignedDecimalLiteral (tl t))
             else strUnsignedDecimalLiteral t))"

definition isNaN :: "jsnumber \<Rightarrow> bool" where
  "isNaN n = (n = NaN)"

fun isFinite :: "jsnumber \<Rightarrow> bool" where
  "isFinite (Finite q) = True"
| "isFinite n = False"

subsection \<open>Lower-casing\<close>

text \<open>
  \<open>String.prototype.toLowerCase\<close> follows the case tables of Unicode, which are not
  part of the repository: the functions that call it take it as the parameter
  \<open>toLowerCase\<close>. \<open>lowerBasicLatin\<close> is its restriction to Basic Latin, which maps
  \<open>A\<close> to \<open>Z\<close> to \<open>a\<close> to \<open>z\<close> and keeps every other code unit.
\<close>

definition lowerBasicLatin :: "jsstring \<Rightarrow> jsstring" where
  "lowerBasicLatin s = map (\<lambda>c. if unitRange CHR ''A'' CHR ''Z'' c then c + 32 else c) s"

section \<open>String utilities\<close>

text \<open>\<open>kebabCase\<close>: \<open>str.replace(/([a-z])([A-Z])/g, "$1-$2").toLowerCase()\<close>.\<close>

definition kebabCase :: "(jsstring \<Rightarrow> jsstring) \<Rightarrow> jsstring \<Rightarrow> jsstring" where
  "kebabCase toLowerCase s =
     toLowerCase
       (replaceAll [Group (unitRange CHR ''a'' CHR ''z''), Group (unitRange CHR ''A'' CHR ''Z'')]
          (str ''$1-$2'') s)"

text \<open>
  \<open>truncate(str, maxLength, suffix = "...")\<close>: when \<open>str.length > maxLength\<close>,
  \<open>str.slice(0, maxLength - suffix.length) + suffix\<close>, and \<open>str\<close> otherwise.
\<close>

definition truncate :: "jsstring \<Rightarrow> int \<Rightarrow> jsstring option \<Rightarrow> jsstring" where
  "truncate s maxLength suffixArg =
     (let suffix = defaultArg (str ''...'') suffixArg
      in if maxLength < int (length s)
         then slice_str s 0 (maxLength - int (length suffix)) @ suffix
         else s)"

text \<open>\<open>mask(str, maskChar = "*")\<close>: \<open>str.replace(/./g, maskChar)\<close>.\<close>

definition mask_str :: "jsstring \<Rightarrow> jsstring option \<Rightarrow> jsstring" where
  "mask_str s maskCharArg =
     (let maskChar = defaultArg (str ''*'') maskCharArg
      in replaceAll [Class dot] maskChar s)"

text \<open>\<open>xssSafe\<close>: \<open>str.replace(/</g, "&lt;").replace(/>/g, "&gt;")\<close>.\<close>

definition xssSafe :: "jsstring \<Rightarrow> jsstring" where
  "xssSafe s =
     replaceAll [Class (lit CHR ''>'')] (str ''&gt;'')
       (replaceAll [Class (lit CHR ''<'')] (str ''&lt;'') s)"

text \<open>
  \<open>htmlSafe\<close>: \<open>str.replace(/&/g, "&amp;").replace(/</g, "&lt;").replace(/>/g, "&gt;")\<close>.
\<close>

definition htmlSafe :: "jsstring \<Rightarrow> jsstring" where
  "htmlSafe s =
     replaceAll [Class (lit CHR ''>'')] (str ''&gt;'')
       (replaceAll [Class (lit CHR ''<'')] (str ''&lt;'')
          (replaceAll [Class (lit CHR ''&'')] (str ''&amp;'') s))"

text \<open>\<open>totalOccurrences\<close>: \<open>str.split(subStr).length - 1\<close>.\<close>

definition totalOccurrences :: "jsstring \<Rightarrow> jsstring \<Rightarrow> int" where
  "totalOccurrences s subStr = int (length (split s subStr)) - 1"

text \<open>\<open>isNumeric\<close>: \<open>!isNaN(+str)\<close>.\<close>

definition isNumeric :: "jsstring \<Rightarrow> bool" where
  "isNumeric s = (\<not> isNaN (stringToNumber s))"

text \<open>\<open>isKebabCase\<close>: \<open>str === kebabCase(str)\<close>.\<close>

definition isKebabCase :: "(jsstring \<Rightarrow> jsstring) \<Rightarrow> jsstring \<Rightarrow> bool" where
  "isKebabCase toLowerCase s = (s = kebabCase toLowerCase s)"

section \<open>Number utilities\<close>

text \<open>\<open>sum(...numbers)\<close>: \<open>numbers.reduce((acc, n) => acc + n, 0)\<close>.\<close>

definition sum_num :: "int list \<Rightarrow> int" where
  "sum_num numbers = foldl (\<lambda>acc n. roundDouble (acc + n)) 0 numbers"

text \<open>
  \<open>getDivisors\<close>: the loop \<open>for (let i = 1; i <= Math.floor(n / 2); i++)\<close> that pushes
  \<open>i\<close> when \<open>n % i === 0\<close>. \<open>Math.floor(n / 2)\<close> is \<open>n div 2\<close>, which rounds towards
  minus infinity, and \<open>i++\<close> is the rounded sum of \<open>i\<close> and 1. The loop need not end.
\<close>

partial_function (option)
  getDivisors_loop :: "int \<Rightarrow> int \<Rightarrow> int list \<Rightarrow> int list option" where
  "getDivisors_loop n i divisors =
     (if i \<le> n div 2
      then getDivisors_loop n (roundDouble (i + 1))
             (if jsRem n i = Some 0 then divisors @ [i] else divisors)
      else Some divisors)"

declare getDivisors_loop.simps [code]

definition getDivisors :: "int \<Rightarrow> int list option" where
  "getDivisors n = getDivisors_loop n 1 []"

text \<open>
  \<open>isPerfect\<close>: \<open>n === sum(...getDivisors(n))\<close>; it returns when \<open>getDivisors\<close> does.
\<close>

definition isPerfect :: "int \<Rightarrow> bool option" where
  "isPerfect n = map_option (\<lambda>divisors. n = sum_num divisors) (getDivisors n)"

text \<open>
  \<open>toOrdinal\<close>: with \<open>v = n % 100\<close>, the number followed by
  \<open>suffixes[(v - 20) % 10] || suffixes[v] || suffixes[0]\<close>.
\<close>

definition suffixes :: "jsstring list" where
  "suffixes = [str ''th'', str ''st'', str ''nd'', str ''rd'']"

definition toOrdinal :: "int \<Rightarrow> jsstring" where
  "toOrdinal n =
     (let v = jsRem n 100 in
      concatValue (numberToString n)
        (orElse (orElse (arrayGet suffixes (Option.bind v (\<lambda>v. jsRem (v - 20) 10)))
                        (arrayGet suffixes v))
                (arrayGet suffixes (Some 0))))"


section \<open>Properties of the string utilities\<close>

subsection \<open>Replacement with a pattern of one class\<close>

lemma getSubstitution_plain:
  "0x24 \<notin> set t \<Longrightarrow> getSubstitution m pre post caps t = t"
  by (induction m pre post caps t rule: getSubstitution.induct) auto

lemma replace_loop_single:
  assumes "\<And>m pre post. getSubstitution m pre post [] t = t"
  shows "replace_loop [Class P] t pre s = concat (map (\<lambda>c. if P c then t else [c]) s)"
  by (induction s arbitrary: pre) (simp_all add: assms)

lemma replaceAll_single_plain:
  "0x24 \<notin> set t \<Longrightarrow>
     replaceAll [Class P] t s = concat (map (\<lambda>c. if P c then t else [c]) s)"
  by (simp add: replaceAll_def replace_loop_single getSubstitution_plain)

lemma replaceAll_single_unit:
  "replaceAll [Class P] [ch] s = map (\<lambda>c. if P c then ch else c) s"
proof -
  have "replaceAll [Class P] [ch] s = concat (map (\<lambda>c. if P c then [ch] else [c]) s)"
    by (simp add: replaceAll_def replace_loop_single)
  also have "\<dots> = map (\<lambda>c. if P c then ch else c) s"
    by (induction s) auto
  finally show ?thesis .
qed

lemma concat_map_concat_map:
  "concat (map f (concat (map g s))) = concat (map (\<lambda>c. concat (map f (g c))) s)"
  by (induction s) simp_all

subsection \<open>Masking\<close>

text \<open>
  With a mask of one code unit, \<open>mask\<close> replaces every code unit that is not a line
  terminator, and keeps the line terminators.
\<close>

lemma mask_str_unit:
  "mask_str s (Some [ch]) = map (\<lambda>c. if isLineTerminator c then c else ch) s"
  by (simp add: mask_str_def defaultArg_def replaceAll_single_unit dot_def)

lemma mask_str_default: "mask_str s None = mask_str s (Some (str ''*''))"
  by (simp add: mask_str_def defaultArg_def)

text \<open>
  Claim C2. For every string \<open>s\<close> and every mask character \<open>ch\<close>, \<open>mask(s, ch)\<close>
  replaces every character of \<open>s\<close> by \<open>ch\<close>, the result having the length of \<open>s\<close>, as the
  documentation of \<open>mask\<close> says (all characters replaced with \<open>maskChar\<close>). The code
  does not: on \<open>a\<close>, line feed, \<open>b\<close> with the default mask it returns \<open>*\<close>, line feed,
  \<open>*\<close>, since \<open>.\<close> does not match a line terminator.
\<close>

theorem mask_str_keeps_line_feed:
  "mask_str [0x61, 0x0A, 0x62] None = [0x2A, 0x0A, 0x2A]
     \<and> mask_str [0x61, 0x0A, 0x62] None \<noteq> replicate (length [0x61, 0x0A, 0x62 :: 16 word]) 0x2A"
  by (simp add: mask_str_default mask_str_unit str_def isLineTerminator_def)

subsection \<open>Escaping\<close>

text \<open>
  Claim C3. For every string \<open>s\<close>, \<open>htmlSafe(s)\<close> escapes the ampersand first and then
  the angle brackets: it is \<open>xssSafe\<close> of \<open>s\<close> with every \<open>&\<close> replaced by \<open>&amp;\<close>, and
  so each \<open>&\<close> of \<open>s\<close> becomes \<open>&amp;\<close>, each \<open><\<close> becomes \<open>&lt;\<close>, each \<open>>\<close> becomes
  \<open>&gt;\<close> and nothing else changes: the ampersands that the later steps write are not
  escaped again, as on \<open><b>&</b>\<close>.
\<close>

theorem htmlSafe_ampersand_first:
  "htmlSafe s = xssSafe (replaceAll [Class (lit CHR ''&'')] (str ''&amp;'') s)
   \<and> htmlSafe s =
       concat (map (\<lambda>c. if c = of_char CHR ''&'' then str ''&amp;''
                        else if c = of_char CHR ''<'' then str ''&lt;''
                        else if c = of_char CHR ''>'' then str ''&gt;''
                        else [c]) s)
   \<and> htmlSafe (str ''<b>&</b>'') = str ''&lt;b&gt;&amp;&lt;/b&gt;''"
proof -
  have plain: "0x24 \<notin> set (str ''&amp;'')" "0x24 \<notin> set (str ''&lt;'')"
    "0x24 \<notin> set (str ''&gt;'')"
    by (simp_all add: str_def)
  have "htmlSafe s =
      concat (map (\<lambda>c. concat (map (\<lambda>c. if lit CHR ''>'' c then str ''&gt;'' else [c])
        (concat (map (\<lambda>c. if lit CHR ''<'' c then str ''&lt;'' else [c])
          (if lit CHR ''&'' c then str ''&amp;'' else [c]))))) s)"
    by (simp add: htmlSafe_def replaceAll_single_plain plain concat_map_concat_map)
  also have "\<dots> =
      concat (map (\<lambda>c. if c = of_char CHR ''&'' then str ''&amp;''
                       else if c = of_char CHR ''<'' then str ''&lt;''
                       else if c = of_char CHR ''>'' then str ''&gt;''
                       else [c]) s)"
    by (rule arg_cong [where f = concat], rule map_cong [OF refl])
       (simp add: lit_def str_def)
  finally have units: "htmlSafe s =
      concat (map (\<lambda>c. if c = of_char CHR ''&'' then str ''&amp;''
                       else if c = of_char CHR ''<'' then str ''&lt;''
                       else if c = of_char CHR ''>'' then str ''&gt;''
                       else [c]) s)" .
  have "htmlSafe (str ''<b>&</b>'') = str ''&lt;b&gt;&amp;&lt;/b&gt;''"
    by code_simp
  then show ?thesis using units by (simp add: htmlSafe_def xssSafe_def)
qed

subsection \<open>Truncation\<close>

text \<open>
  Claim C4. For every string \<open>s\<close>, every suffix (\<open>...\<close> when the argument is omitted)
  and every \<open>maxLen\<close> with \<open>length(suffix) \<le> maxLen\<close>: if \<open>length(s) > maxLen\<close> then
  \<open>truncate(s, maxLen, suffix)\<close> is the first \<open>maxLen - length(suffix)\<close> characters of
  \<open>s\<close> followed by the suffix, otherwise it is \<open>s\<close>; in particular
  \<open>truncate("hello world", 5)\<close> is \<open>he...\<close>.
\<close>

theorem truncate_spec:
  assumes "suffix = defaultArg (str ''...'') suffixArg" and "int (length suffix) \<le> maxLen"
  shows "truncate s maxLen suffixArg =
           (if maxLen < int (length s)
            then take (nat (maxLen - int (length suffix))) s @ suffix
            else s)"
  using assms by (auto simp: truncate_def slice_str_def Let_def min_def)

theorem truncate_spec_witness:
  "str ''...'' = defaultArg (str ''...'') None \<and> int (length (str ''...'')) \<le> 5
     \<and> truncate (str ''hello world'') 5 None = str ''he...''"
  using truncate_spec [of "str ''...''" None 5 "str ''hello world''"]
  by (simp add: defaultArg_def str_def)

subsection \<open>Occurrences\<close>

text \<open>
  Claim C9. For every string \<open>s\<close>, \<open>totalOccurrences(s, "")\<close> with the empty substring
  is \<open>length(s) - 1\<close>; in particular \<open>totalOccurrences("", "")\<close> is \<open>-1\<close>, a negative
  count.
\<close>

theorem totalOccurrences_empty_substring:
  "totalOccurrences s [] = int (length s) - 1 \<and> totalOccurrences [] [] = - 1"
  by (simp add: totalOccurrences_def split_def)

subsection \<open>Kebab case\<close>

lemma replace_loop_no_upper:
  assumes "list_all (\<lambda>c. \<not> Q c) s"
  shows "replace_loop [Group P, Group Q] t pre s = s"
  using assms
proof (induction s arbitrary: pre)
  case Nil
  show ?case by simp
next
  case (Cons c s)
  have "matchPrefix [Group P, Group Q] (c # s) = None"
    using Cons.prems by (cases s) auto
  then show ?case using Cons by simp
qed

lemma upper_shift:
  "unitRange CHR ''A'' CHR ''Z'' c \<Longrightarrow> \<not> unitRange CHR ''A'' CHR ''Z'' (c + 32)"
  unfolding unitRange_def by simp unat_arith

lemma lowerBasicLatin_lower:
  "list_all (\<lambda>c. \<not> unitRange CHR ''A'' CHR ''Z'' c) (lowerBasicLatin t)"
  by (induction t) (auto simp: lowerBasicLatin_def upper_shift)

lemma lowerBasicLatin_idem: "lowerBasicLatin (lowerBasicLatin t) = lowerBasicLatin t"
  by (induction t) (auto simp: lowerBasicLatin_def upper_shift)

text \<open>
  Claim C7. For every string \<open>s\<close>, \<open>isKebabCase(kebabCase(s))\<close> is true; equivalently
  \<open>kebabCase(kebabCase(s)) = kebabCase(s)\<close>, since \<open>isKebabCase\<close> tests being a fixed
  point of \<open>kebabCase\<close>. Two facts about the lower-casing of the language are used: a
  lower-cased string is not changed by lower-casing it again, and it has no code unit
  from \<open>A\<close> to \<open>Z\<close>.
\<close>

theorem kebabCase_fixed_point:
  assumes idem: "\<And>t. toLowerCase (toLowerCase t) = toLowerCase t"
    and lower: "\<And>t. list_all (\<lambda>c. \<not> unitRange CHR ''A'' CHR ''Z'' c) (toLowerCase t)"
  shows "isKebabCase toLowerCase (kebabCase toLowerCase s)
       \<and> kebabCase toLowerCase (kebabCase toLowerCase s) = kebabCase toLowerCase s"
proof -
  define u where
    "u = replaceAll [Group (unitRange CHR ''a'' CHR ''z''), Group (unitRange CHR ''A'' CHR ''Z'')]
           (str ''$1-$2'') s"
  have k: "kebabCase toLowerCase s = toLowerCase u"
    by (simp add: kebabCase_def u_def)
  have "replaceAll [Group (unitRange CHR ''a'' CHR ''z''), Group (unitRange CHR ''A'' CHR ''Z'')]
           (str ''$1-$2'') (toLowerCase u) = toLowerCase u"
    unfolding replaceAll_def using lower [of u] by (rule replace_loop_no_upper)
  then have "kebabCase toLowerCase (toLowerCase u) = toLowerCase u"
    by (simp add: kebabCase_def idem)
  then show ?thesis by (simp add: isKebabCase_def k)
qed

theorem kebabCase_fixed_point_witness:
  "(\<forall>t. lowerBasicLatin (lowerBasicLatin t) = lowerBasicLatin t)
     \<and> (\<forall>t. list_all (\<lambda>c. \<not> unitRange CHR ''A'' CHR ''Z'' c) (lowerBasicLatin t))
     \<and> kebabCase lowerBasicLatin (str ''helloWorld'') = str ''hello-world''
     \<and> isKebabCase lowerBasicLatin (str ''hello-world'')"
proof -
  have e: "kebabCase lowerBasicLatin (str ''helloWorld'') = str ''hello-world''"
    by code_simp
  show ?thesis
    using kebabCase_fixed_point [of lowerBasicLatin "str ''helloWorld''",
        OF lowerBasicLatin_idem lowerBasicLatin_lower]
    by (simp add: e lowerBasicLatin_idem lowerBasicLatin_lower)
qed

subsection \<open>Numeric strings\<close>

lemmas number_defs = isNumeric_def isNaN_def stringToNumber_def trimWhiteSpace_def
  isStrWhiteSpaceChar_def isLineTerminator_def nonDecimalIntegerLiteral_def digitsValue_def
  digitValue_def strUnsignedDecimalLiteral_def exponentPart_def isDecimalDigit_def
  decimalValue_def scale10_def roundToNumber_def str_def Let_def

lemma dropWhile_rev_Cons:
  "rev (dropWhile P (rev (c # v))) =
     (if rev (dropWhile P (rev v)) = [] \<and> P c then [] else c # rev (dropWhile P (rev v)))"
  by (auto simp: dropWhile_append)

lemma dropWhile_trimmed_end:
  "dropWhile P (rev (dropWhile P (rev (dropWhile P s)))) = rev (dropWhile P (rev (dropWhile P s)))"
proof -
  have "v = [] \<or> \<not> P (hd v) \<Longrightarrow>
        dropWhile P (rev (dropWhile P (rev v))) = rev (dropWhile P (rev v))" for v
  proof (cases v)
    case Nil
    then show ?thesis by simp
  next
    case (Cons c w)
    assume "v = [] \<or> \<not> P (hd v)"
    with Cons have "\<not> P c" by simp
    then show ?thesis unfolding Cons dropWhile_rev_Cons by simp
  qed
  moreover have "dropWhile P s = [] \<or> \<not> P (hd (dropWhile P s))"
    using hd_dropWhile [of P s] by blast
  ultimately show ?thesis by blast
qed

lemma trimWhiteSpace_idem: "trimWhiteSpace (trimWhiteSpace s) = trimWhiteSpace s"
  by (simp add: trimWhiteSpace_def dropWhile_trimmed_end)

lemma stringToNumber_trim: "stringToNumber (trimWhiteSpace s) = stringToNumber s"
  by (simp add: stringToNumber_def trimWhiteSpace_idem)

text \<open>
  Claim C1, as stated: \<open>isNumeric(s)\<close> is true if and only if \<open>s\<close> parses as a finite
  number. It fails on \<open>Infinity\<close>, which converts to the infinite number, not to
  not-a-number: \<open>isNumeric\<close> is true of it.
\<close>

theorem isNumeric_Infinity:
  "isNumeric (str ''Infinity'') \<and> stringToNumber (str ''Infinity'') = PosInfinity
     \<and> \<not> isFinite (stringToNumber (str ''Infinity''))"
  by (simp add: number_defs)

text \<open>
  Claim C1, amended. For every string \<open>s\<close>, \<open>isNumeric(s)\<close> is true if and only if \<open>s\<close>
  converts to a number other than not-a-number: a finite number or an infinity. White
  space around \<open>s\<close> does not change the answer.
\<close>

theorem isNumeric_iff_not_NaN:
  "isNumeric s =
     (isFinite (stringToNumber s) \<or> stringToNumber s = PosInfinity
        \<or> stringToNumber s = NegInfinity)
   \<and> isNumeric (trimWhiteSpace s) = isNumeric s"
  by (cases "stringToNumber s") (simp_all add: isNumeric_def isNaN_def stringToNumber_trim)

theorem isNumeric_iff_not_NaN_witness:
  "isNumeric (str ''123'') \<and> isNumeric (str '' -12.5e-1 '') \<and> isNumeric (str ''1e400'')
     \<and> isNumeric [] \<and> \<not> isNumeric (str ''hello world'')
     \<and> stringToNumber (str ''1e400'') = PosInfinity"
  using isNumeric_iff_not_NaN [of "str ''123''"] isNumeric_iff_not_NaN [of "str ''hello world''"]
  by (simp add: number_defs)

section \<open>Properties of the number utilities\<close>

subsection \<open>The remainder operator\<close>

lemma jsRem_zero_iff: "0 < d \<Longrightarrow> (jsRem n d = Some 0) = (d dvd n)"
proof -
  assume d: "0 < d"
  have "(sgn n * (\<bar>n\<bar> mod \<bar>d\<bar>) = 0) = (\<bar>d\<bar> dvd \<bar>n\<bar>)"
    by (auto simp: sgn_if mod_eq_0_iff_dvd)
  then show ?thesis using d by (simp add: jsRem_def)
qed

lemma jsRem_nonneg: "0 < d \<Longrightarrow> 0 \<le> n \<Longrightarrow> jsRem n d = Some (n mod d)"
  by (simp add: jsRem_def sgn_if)


subsection \<open>Rounding to a double\<close>

lemma bitLength_eq: "2 ^ k \<le> n \<Longrightarrow> n < 2 ^ Suc k \<Longrightarrow> bitLength n = Suc k"
proof (induction k arbitrary: n)
  case 0
  then have "n = 1" by simp
  then show ?case by (simp add: bitLength.simps)
next
  case (Suc k)
  have "2 ^ k \<le> n div 2" "n div 2 < 2 ^ Suc k" using Suc.prems by auto
  then have "bitLength (n div 2) = Suc k" by (rule Suc.IH)
  moreover have "0 < n" using Suc.prems(1) by (smt (verit) zero_less_power)
  ultimately show ?case by (subst bitLength.simps) simp
qed

lemma bitLength_le: "n < 2 ^ k \<Longrightarrow> bitLength n \<le> k"
proof (induction k arbitrary: n)
  case 0
  then show ?case by (simp add: bitLength.simps)
next
  case (Suc k)
  have "n div 2 < 2 ^ k" using Suc.prems by auto
  then have "bitLength (n div 2) \<le> k" by (rule Suc.IH)
  then show ?case by (subst bitLength.simps) simp
qed

lemma bitLength_upper: "n < 2 ^ bitLength n"
proof (induction n rule: bitLength.induct)
  case (1 n)
  show ?case
  proof (cases "n \<le> 0")
    case True
    then show ?thesis by (subst bitLength.simps) simp
  next
    case False
    then have "n div 2 < 2 ^ bitLength (n div 2)" by (rule "1.IH")
    then have "n < 2 * 2 ^ bitLength (n div 2)" by linarith
    then show ?thesis using False by (subst bitLength.simps) simp
  qed
qed

lemma bitLength_lower: "0 < n \<Longrightarrow> 2 ^ (bitLength n - 1) \<le> n"
proof (induction n rule: bitLength.induct)
  case (1 n)
  show ?case
  proof (cases "n = 1")
    case True
    then show ?thesis by (simp add: bitLength.simps)
  next
    case False
    with "1.prems" have h: "0 < n div 2" "\<not> n \<le> 0" by auto
    then have "2 ^ (bitLength (n div 2) - 1) \<le> n div 2" using "1.IH" by simp
    moreover have "0 < bitLength (n div 2)" using h(1) by (subst bitLength.simps) simp
    ultimately have "2 * 2 ^ (bitLength (n div 2) - 1) \<le> n"
      "2 * (2::int) ^ (bitLength (n div 2) - 1) = 2 ^ bitLength (n div 2)"
      by (linarith, cases "bitLength (n div 2)", simp_all)
    then show ?thesis using h(2) by (subst bitLength.simps) simp
  qed
qed

lemma roundDouble_exact: "\<bar>x\<bar> \<le> 2 ^ 53 \<Longrightarrow> roundDouble x = x"
proof (cases "\<bar>x\<bar> = 2 ^ 53")
  case True
  have "bitLength \<bar>x\<bar> = Suc 53" by (rule bitLength_eq) (simp_all add: True)
  then have b: "bitLength \<bar>x\<bar> - 53 = 1" by simp
  show ?thesis unfolding roundDouble_def Let_def b using True
    by (simp add: sgn_if abs_if split: if_splits)
next
  case False
  assume "\<bar>x\<bar> \<le> 2 ^ 53"
  with False have "\<bar>x\<bar> < 2 ^ 53" by simp
  then have "bitLength \<bar>x\<bar> \<le> 53" by (rule bitLength_le)
  then have "bitLength \<bar>x\<bar> - 53 = 0" by simp
  then show ?thesis by (simp add: roundDouble_def Let_def sgn_if)
qed

lemma roundDouble_ge_power:
  assumes "2 ^ k \<le> x" and "53 \<le> k"
  shows "2 ^ k \<le> roundDouble x"
proof -
  define e where "e = bitLength x - 53"
  define q :: int where "q = 2 ^ e"
  have pos: "0 < x" using assms(1) by (smt (verit) zero_less_power)
  have "x < 2 ^ bitLength x" by (rule bitLength_upper)
  with assms(1) have "(2::int) ^ k < 2 ^ bitLength x" by linarith
  then have "k < bitLength x" by (rule power_less_imp_less_exp [rotated]) simp
  then have bl: "bitLength x - 1 = 52 + e" and e: "k \<le> 52 + e" using assms(2) by (simp_all add: e_def)
  have "2 ^ (bitLength x - 1) \<le> x" using pos by (rule bitLength_lower)
  then have "2 ^ (52 + e) \<le> x" unfolding bl .
  then have "2 ^ 52 * q \<le> x" by (simp add: q_def power_add)
  then have "2 ^ 52 \<le> x div q"
    by (metis q_def mult.commute zdiv_mono1 nonzero_mult_div_cancel_left
        zero_less_power zero_less_numeral less_numeral_extra(3) order_less_imp_le)
  then have "2 ^ 52 * q \<le> (x div q) * q" by (simp add: q_def)
  moreover have "(2::int) ^ k \<le> 2 ^ (52 + e)" using e by (intro power_increasing) simp_all
  then have "(2::int) ^ k \<le> 2 ^ 52 * q" by (simp add: q_def power_add)
  ultimately have lo: "2 ^ k \<le> (x div q) * q" by linarith
  have "0 < q" by (simp add: q_def)
  then have "x div q * q \<le> roundDouble x"
    using pos by (simp add: roundDouble_def Let_def e_def [symmetric] q_def [symmetric])
  then show ?thesis using lo by linarith
qed

lemma roundDouble_large: "2 ^ 53 \<le> x \<Longrightarrow> 2 ^ 53 \<le> roundDouble x"
  by (rule roundDouble_ge_power) simp_all

lemma roundDouble_above:
  assumes "2 ^ 53 + 2 \<le> x"
  shows "2 ^ 53 + 2 \<le> roundDouble x"
proof (cases "x < 2 ^ 54")
  case True
  have "bitLength x = Suc 53" using assms True by (intro bitLength_eq) simp_all
  then have b: "bitLength \<bar>x\<bar> - 53 = 1" using assms by simp
  have "2 ^ 53 + 2 \<le> x div 2 * 2" using assms by simp
  moreover have "x div 2 * 2 \<le> roundDouble x"
    using assms unfolding roundDouble_def Let_def b by (simp add: sgn_if)
  ultimately show ?thesis by linarith
next
  case False
  then have "2 ^ 54 \<le> roundDouble x" by (intro roundDouble_ge_power) simp_all
  then show ?thesis by simp
qed


lemma roundDouble_stuck: "roundDouble 9007199254740993 = 9007199254740992"
proof -
  have "bitLength \<bar>2 ^ 53 + 1\<bar> = Suc 53" by (rule bitLength_eq) simp_all
  then have b: "bitLength \<bar>2 ^ 53 + 1\<bar> - 53 = 1" by simp
  have "roundDouble (2 ^ 53 + 1) = 2 ^ 53"
    unfolding roundDouble_def Let_def b by simp
  then show ?thesis by simp
qed

subsection \<open>Modulo\<close>





subsection \<open>Divisors and perfect numbers\<close>

lemma getDivisors_loop_filter:
  assumes "n \<le> 2 ^ 53" and "1 \<le> i"
  shows "getDivisors_loop n i acc = Some (acc @ filter (\<lambda>k. k dvd n) [i..n div 2])"
  using assms(2)
proof (induction "nat (n div 2 + 1 - i)" arbitrary: i acc)
  case 0
  then have "\<not> i \<le> n div 2" by simp
  then show ?case by (subst getDivisors_loop.simps) simp
next
  case (Suc d)
  then have le: "i \<le> n div 2" by simp
  have "n div 2 \<le> 2 ^ 52" using assms(1) by simp
  then have "\<bar>i + 1\<bar> \<le> 2 ^ 53" using le Suc.prems by simp
  then have inc: "roundDouble (i + 1) = i + 1" by (rule roundDouble_exact)
  have up: "[i..n div 2] = i # [i + 1..n div 2]"
    using le by (simp add: upto_rec1)
  from Suc.prems have pos: "0 < i" by simp
  have d: "d = nat (n div 2 + 1 - (i + 1))" using Suc.hyps(2) by simp
  have step: "getDivisors_loop n i acc =
      getDivisors_loop n (i + 1) (if jsRem n i = Some 0 then acc @ [i] else acc)"
    using le by (subst getDivisors_loop.simps) (simp add: inc)
  have "getDivisors_loop n (i + 1) (if jsRem n i = Some 0 then acc @ [i] else acc)
      = Some ((if jsRem n i = Some 0 then acc @ [i] else acc)
              @ filter (\<lambda>k. k dvd n) [i + 1..n div 2])"
    using Suc.hyps(1) [OF d] Suc.prems by simp
  then show ?case
    unfolding step up using jsRem_zero_iff [OF pos, of n] by simp
qed

lemma getDivisors_loop_stuck:
  assumes "getDivisors_loop n i acc = Some y"
  shows "\<not> (n = 2 ^ 54 \<and> 1 \<le> i \<and> i \<le> 2 ^ 53)"
proof (rule getDivisors_loop.raw_induct
    [where P = "\<lambda>n i acc y. \<not> (n = 2 ^ 54 \<and> 1 \<le> i \<and> i \<le> 2 ^ 53)", OF _ assms])
  fix loop :: "int \<Rightarrow> int \<Rightarrow> int list \<Rightarrow> int list option"
    and n i :: int and divisors y :: "int list"
  assume IH: "\<And>n i divisors y. loop n i divisors = Some y \<Longrightarrow>
      \<not> (n = 2 ^ 54 \<and> 1 \<le> i \<and> i \<le> 2 ^ 53)"
  assume eq: "(if i \<le> n div 2
      then loop n (roundDouble (i + 1))
             (if jsRem n i = Some 0 then divisors @ [i] else divisors)
      else Some divisors) = Some y"
  show "\<not> (n = 2 ^ 54 \<and> 1 \<le> i \<and> i \<le> 2 ^ 53)"
  proof
    assume a: "n = 2 ^ 54 \<and> 1 \<le> i \<and> i \<le> 2 ^ 53"
    then have le: "i \<le> n div 2" by simp
    have next_i: "1 \<le> roundDouble (i + 1) \<and> roundDouble (i + 1) \<le> 2 ^ 53"
    proof (cases "i = 2 ^ 53")
      case True
      then show ?thesis by (simp add: roundDouble_stuck)
    next
      case False
      then have "\<bar>i + 1\<bar> \<le> 2 ^ 53" using a by simp
      then have "roundDouble (i + 1) = i + 1" by (rule roundDouble_exact)
      then show ?thesis using a False by simp
    qed
    from eq le
    have "loop n (roundDouble (i + 1))
            (if jsRem n i = Some 0 then divisors @ [i] else divisors) = Some y"
      by simp
    then have "\<not> (n = 2 ^ 54 \<and> 1 \<le> roundDouble (i + 1) \<and> roundDouble (i + 1) \<le> 2 ^ 53)"
      by (rule IH)
    then show False using a next_i by simp
  qed
qed

lemma sum_loop_large:
  "2 ^ 53 \<le> a \<Longrightarrow> \<forall>x \<in> set xs. 0 \<le> x \<Longrightarrow>
     2 ^ 53 \<le> foldl (\<lambda>acc n. roundDouble (acc + n)) a xs"
proof (induction xs arbitrary: a)
  case Nil
  then show ?case by simp
next
  case (Cons x xs)
  have "2 ^ 53 \<le> a + x" using Cons.prems by simp
  then have "2 ^ 53 \<le> roundDouble (a + x)" by (rule roundDouble_large)
  then show ?case using Cons by simp
qed

lemma sum_loop_exact:
  "0 \<le> a \<Longrightarrow> \<forall>x \<in> set xs. 0 \<le> x \<Longrightarrow>
     (a + sum_list xs \<le> 2 ^ 53 \<longrightarrow> foldl (\<lambda>acc n. roundDouble (acc + n)) a xs = a + sum_list xs)
   \<and> (2 ^ 53 < a + sum_list xs \<longrightarrow> 2 ^ 53 \<le> foldl (\<lambda>acc n. roundDouble (acc + n)) a xs)"
proof (induction xs arbitrary: a)
  case Nil
  then show ?case by simp
next
  case (Cons x xs)
  have nn: "0 \<le> x" "\<forall>y \<in> set xs. 0 \<le> y" "0 \<le> sum_list xs"
    using Cons.prems by (simp_all add: sum_list_nonneg)
  show ?case
  proof (cases "a + x \<le> 2 ^ 53")
    case True
    then have "\<bar>a + x\<bar> \<le> 2 ^ 53" using Cons.prems(1) nn(1) by simp
    then have r: "roundDouble (a + x) = a + x" by (rule roundDouble_exact)
    have "0 \<le> a + x" using Cons.prems(1) nn(1) by simp
    from Cons.IH [OF this nn(2)] show ?thesis by (simp add: r add.assoc)
  next
    case False
    then have "2 ^ 53 \<le> a + x" by simp
    then have "2 ^ 53 \<le> roundDouble (a + x)" by (rule roundDouble_large)
    then have "2 ^ 53 \<le> foldl (\<lambda>acc n. roundDouble (acc + n)) (roundDouble (a + x)) xs"
      using nn(2) by (rule sum_loop_large)
    then show ?thesis using False nn(3) by simp
  qed
qed

lemma isPerfect_sum:
  assumes "n < 2 ^ 53" and "\<forall>x \<in> set xs. 0 \<le> x"
  shows "(n = sum_num xs) = (n = sum_list xs)"
  using sum_loop_exact [of 0 xs] assms by (auto simp: sum_num_def)

text \<open>
  Claim C8, as stated: for every positive integer \<open>n\<close>, \<open>getDivisors(n)\<close> returns the
  divisors of \<open>n\<close> in \<open>1..floor(n/2)\<close> and \<open>isPerfect(n)\<close> returns whether \<open>n\<close> is their
  sum. It fails for \<open>n = 2 ^ 54\<close>: the bound of the loop is \<open>2 ^ 53\<close>, and the counter
  cannot pass it, since \<open>2 ^ 53 + 1\<close> is rounded to \<open>2 ^ 53\<close>; the loop does not end,
  and neither function returns.
\<close>

theorem getDivisors_never_returns:
  "getDivisors (2 ^ 54) = None \<and> isPerfect (2 ^ 54) = None"
proof -
  have "getDivisors_loop (2 ^ 54) 1 [] = None"
  proof (cases "getDivisors_loop (2 ^ 54) 1 []")
    case None
    then show ?thesis .
  next
    case (Some y)
    then have "\<not> ((2 ^ 54 :: int) = 2 ^ 54 \<and> (1::int) \<le> 1 \<and> (1::int) \<le> 2 ^ 53)"
      by (rule getDivisors_loop_stuck)
    then show ?thesis by simp
  qed
  then show ?thesis by (simp add: getDivisors_def isPerfect_def)
qed

text \<open>
  Claim C8, amended. For every integer \<open>n\<close> with \<open>0 < n < 2 ^ 53\<close>, \<open>getDivisors(n)\<close>
  returns, in ascending order, exactly the integers of \<open>1..floor(n/2)\<close> that divide
  \<open>n\<close>, so \<open>n\<close> itself is not in the list, and \<open>isPerfect(n)\<close> returns true if and only
  if \<open>n\<close> is the sum of that list; in particular \<open>getDivisors(6) = [1, 2, 3]\<close>,
  \<open>isPerfect(6)\<close> is true and \<open>isPerfect(4)\<close> is false.
\<close>

theorem getDivisors_proper_divisors:
  assumes "0 < n" and "n < 2 ^ 53"
  shows "\<exists>ds. getDivisors n = Some ds
       \<and> ds = filter (\<lambda>i. i dvd n) [1..n div 2]
       \<and> sorted_wrt (<) ds
       \<and> set ds = {i. 1 \<le> i \<and> i \<le> n div 2 \<and> i dvd n}
       \<and> n \<notin> set ds
       \<and> isPerfect n = Some (n = sum_list ds)"
proof -
  define ds where "ds = filter (\<lambda>i. i dvd n) [1..n div 2]"
  have g: "getDivisors n = Some ds"
    using assms(2) by (simp add: getDivisors_def getDivisors_loop_filter ds_def)
  have asc: "sorted_wrt (<) [1..n div 2]"
    by (simp add: sorted_wrt_upto)
  have "sorted_wrt (<) ds"
    unfolding ds_def using asc by (rule sorted_wrt_filter)
  moreover have s: "set ds = {i. 1 \<le> i \<and> i \<le> n div 2 \<and> i dvd n}"
    by (auto simp: ds_def)
  moreover have "n \<notin> set ds"
    using assms(1) by (auto simp: ds_def)
  moreover have "(n = sum_num ds) = (n = sum_list ds)"
    using assms(2) by (rule isPerfect_sum) (simp add: s)
  then have "isPerfect n = Some (n = sum_list ds)"
    by (simp add: isPerfect_def g)
  ultimately show ?thesis using g ds_def by blast
qed

theorem getDivisors_proper_divisors_witness:
  "(0::int) < 6 \<and> (6::int) < 2 ^ 53 \<and> getDivisors 6 = Some [1, 2, 3] \<and> isPerfect 6 = Some True
     \<and> (0::int) < 4 \<and> (4::int) < 2 ^ 53 \<and> isPerfect 4 = Some False"
  using getDivisors_proper_divisors [of 6] getDivisors_proper_divisors [of 4]
  by (simp add: upto_rec1)

text \<open>
  Claim C10. For every integer \<open>n \<le> 0\<close>, \<open>getDivisors(n)\<close> returns the empty list, and
  so \<open>isPerfect(n)\<close> is true exactly when \<open>n = 0\<close>: \<open>0\<close> is classified as perfect and
  every negative number as not perfect.
\<close>

theorem getDivisors_nonpositive:
  assumes "n \<le> 0"
  shows "getDivisors n = Some [] \<and> isPerfect n = Some (n = 0)"
proof -
  have "\<not> 1 \<le> n div 2" using assms by simp
  then have "getDivisors n = Some []"
    unfolding getDivisors_def by (subst getDivisors_loop.simps) simp
  then show ?thesis by (simp add: isPerfect_def sum_num_def)
qed

theorem getDivisors_nonpositive_witness:
  "(0::int) \<le> 0 \<and> getDivisors 0 = Some [] \<and> isPerfect 0 = Some True
     \<and> (- 6::int) \<le> 0 \<and> getDivisors (- 6) = Some [] \<and> isPerfect (- 6) = Some False"
  using getDivisors_nonpositive [of 0] getDivisors_nonpositive [of "- 6"] by simp

subsection \<open>Ordinals\<close>

lemma suffix_lt20:
  assumes "0 \<le> v" "v < 20"
  shows "orElse (orElse (arrayGet suffixes (jsRem (v - 20) 10)) (arrayGet suffixes (Some v)))
                (arrayGet suffixes (Some 0))
     = Some (if v = 1 then str ''st'' else if v = 2 then str ''nd'' else if v = 3 then str ''rd'' else str ''th'')"
proof -
  have "v \<in> {0..19}" using assms by simp
  also have "{0..19::int} = set [0..19]" by simp
  finally have "v \<in> set [0..19]" .
  then show ?thesis
    by (simp add: upto_rec1 jsRem_def arrayGet_def orElse_def suffixes_def str_def, elim disjE; simp)
qed

lemma suffix_digit:
  assumes "0 \<le> k" "k < 10"
  shows "orElse (orElse (arrayGet suffixes (Some k)) None) (arrayGet suffixes (Some 0))
     = Some (if k = 1 then str ''st'' else if k = 2 then str ''nd''
             else if k = 3 then str ''rd'' else str ''th'')"
proof -
  have "k \<in> {0..9}" using assms by simp
  also have "{0..9::int} = set [0..9]" by simp
  finally have "k \<in> set [0..9]" .
  then show ?thesis
    by (auto simp add: upto_rec1 arrayGet_def orElse_def suffixes_def str_def)
qed

lemma suffix_ge20:
  assumes "20 \<le> v" "v < 100"
  shows "orElse (orElse (arrayGet suffixes (jsRem (v - 20) 10)) (arrayGet suffixes (Some v)))
                (arrayGet suffixes (Some 0))
     = Some (if v mod 10 = 1 then str ''st'' else if v mod 10 = 2 then str ''nd''
             else if v mod 10 = 3 then str ''rd'' else str ''th'')"
proof -
  have r: "jsRem (v - 20) 10 = Some (v mod 10)"
  proof -
    have "jsRem (v - 20) 10 = Some ((v - 20) mod 10)" using assms by (simp add: jsRem_nonneg)
    moreover have "(v - 20) mod 10 = v mod 10" by presburger
    ultimately show ?thesis by simp
  qed
  have out: "arrayGet suffixes (Some v) = None" using assms by (simp add: arrayGet_def suffixes_def)
  show ?thesis unfolding r out by (rule suffix_digit) simp_all
qed

lemma ordinal_rule_lt20:
  assumes "0 \<le> v" "v < 20"
  shows "(if (v::int) = 1 then a else if v = 2 then b else if v = 3 then c else d)
       = (if v \<in> {11, 12, 13} then d
          else if v mod 10 = 1 then a else if v mod 10 = 2 then b
          else if v mod 10 = 3 then c else d)"
proof -
  have "v \<in> {0..19}" using assms by simp
  also have "{0..19::int} = set [0..19]" by simp
  finally have "v \<in> set [0..19]" .
  then show ?thesis by (simp add: upto_rec1, elim disjE; simp)
qed

lemma digitsOf_digits: "0 \<le> n \<Longrightarrow> d \<in> set (digitsOf n) \<Longrightarrow> 48 \<le> d \<and> d \<le> 57"
proof (induction n rule: digitsOf.induct)
  case (1 n)
  show ?case
  proof (cases "n < 10")
    case True
    then have "n \<in> set [0..9]" using "1.prems"(1) by simp
    with "1.prems"(2) show ?thesis
      by (subst (asm) digitsOf.simps) (simp add: upto_rec1, elim disjE; simp)
  next
    case False
    have "n mod 10 \<in> set [0..9]" by simp
    then have "48 \<le> (of_int (48 + n mod 10) :: 16 word) \<and> (of_int (48 + n mod 10) :: 16 word) \<le> 57"
      by (simp add: upto_rec1, elim disjE; simp)
    moreover have "0 \<le> n div 10" using False by simp
    ultimately show ?thesis using False "1.prems"(2) "1.IH"
      by (subst (asm) digitsOf.simps) auto
  qed
qed

lemma decimalValue_digitsOf: "0 \<le> n \<Longrightarrow> decimalValue (digitsOf n) = n"
proof (induction n rule: digitsOf.induct)
  case (1 n)
  show ?case
  proof (cases "n < 10")
    case True
    then have "n \<in> set [0..9]" using "1.prems" by simp
    then show ?thesis
      by (subst digitsOf.simps) (simp add: upto_rec1 decimalValue_def, elim disjE; simp)
  next
    case False
    have "n mod 10 \<in> set [0..9]" by simp
    then have "uint (of_int (48 + n mod 10) :: 16 word) - 48 = n mod 10"
      by (simp add: upto_rec1, elim disjE; simp)
    moreover have "0 \<le> n div 10" using False by simp
    ultimately show ?thesis using False "1.IH"
      by (subst digitsOf.simps) (simp add: decimalValue_def)
  qed
qed

lemma length_digitsOf: "n < 10 ^ Suc k \<Longrightarrow> length (digitsOf n) \<le> Suc k"
proof (induction k arbitrary: n)
  case 0
  then show ?case by (subst digitsOf.simps) simp
next
  case (Suc k)
  show ?case
  proof (cases "n < 10")
    case True
    then show ?thesis by (subst digitsOf.simps) simp
  next
    case False
    have "n div 10 < 10 ^ Suc k" using Suc.prems by simp
    then have "length (digitsOf (n div 10)) \<le> Suc k" by (rule Suc.IH)
    then show ?thesis using False by (subst digitsOf.simps) simp
  qed
qed

lemma shortest_loop_safe:
  assumes "0 \<le> v" and "v \<le> 2 ^ 53"
  shows "shortest_loop v d k = v"
proof (induction "d - k" arbitrary: k)
  case 0
  then show ?case by (subst shortest_loop.simps) simp
next
  case (Suc j)
  define p :: int where "p = 10 ^ (d - k)"
  define lo where "lo = (v div p) * p"
  have dk: "d - k = Suc j" "\<not> d \<le> k" using Suc.hyps(2) by simp_all
  have p: "0 < p" "10 dvd p" by (simp_all add: p_def dk(1))
  have lo: "0 \<le> lo" "lo \<le> v" "v < lo + p" "10 dvd lo + p"
  proof -
    show "0 \<le> lo" using assms(1) p(1) by (simp add: lo_def pos_imp_zdiv_nonneg_iff)
    show "lo \<le> v"
      using pos_mod_sign [OF p(1), of v] div_mult_mod_eq [of v p] unfolding lo_def by linarith
    have "v mod p < p" using p(1) by simp
    then show "v < lo + p" using div_mult_mod_eq [of v p] unfolding lo_def by linarith
    show "10 dvd lo + p" using p(2) by (simp add: lo_def)
  qed
  have "\<bar>lo\<bar> \<le> 2 ^ 53" using lo(1,2) assms(2) by simp
  then have rlo: "roundDouble lo = lo" by (rule roundDouble_exact)
  have rhi: "roundDouble (lo + p) \<noteq> v"
  proof (cases "lo + p \<le> 2 ^ 53")
    case True
    then have "\<bar>lo + p\<bar> \<le> 2 ^ 53" using lo(1) p(1) by simp
    then have "roundDouble (lo + p) = lo + p" by (rule roundDouble_exact)
    then show ?thesis using lo(3) by simp
  next
    case False
    then have "9007199254740992 < lo + p" by simp
    then have "9007199254740994 \<le> lo + p" using lo(4) by presburger
    then have "2 ^ 53 + 2 \<le> roundDouble (lo + p)" by (intro roundDouble_above) simp
    then show ?thesis using assms(2) by simp
  qed
  have rec: "shortest_loop v d (Suc k) = v"
    using Suc.hyps(2) by (intro Suc.hyps(1)) simp
  show ?case
    by (subst shortest_loop.simps)
       (use dk(2) rlo rhi rec in \<open>simp add: Let_def p_def [symmetric] lo_def [symmetric]\<close>)
qed

lemma numberToString_safe:
  assumes "0 \<le> n" and "n \<le> 2 ^ 53"
  shows "numberToString n = digitsOf n"
proof -
  have "n < 10 ^ Suc 15" using assms(2) by simp
  then have "length (digitsOf n) \<le> Suc 15" by (rule length_digitsOf)
  then show ?thesis
    using assms by (simp add: numberToString_def shortestDecimal_def shortest_loop_safe Let_def)
qed

lemma toOrdinal_suffix:
  assumes "0 \<le> n"
  shows "toOrdinal n = numberToString n @
           (if n mod 100 \<in> {11, 12, 13} then str ''th''
            else if n mod 10 = 1 then str ''st''
            else if n mod 10 = 2 then str ''nd''
            else if n mod 10 = 3 then str ''rd''
            else str ''th'')"
proof -
  define v where "v = n mod 100"
  have v: "0 \<le> v" "v < 100" and rem: "jsRem n 100 = Some v" and m10: "v mod 10 = n mod 10"
    unfolding v_def using assms by (simp_all add: jsRem_nonneg mod_mod_cancel)
  have unf: "toOrdinal n = concatValue (numberToString n)
      (orElse (orElse (arrayGet suffixes (jsRem (v - 20) 10)) (arrayGet suffixes (Some v)))
              (arrayGet suffixes (Some 0)))"
    by (simp add: toOrdinal_def rem)
  show ?thesis
  proof (cases "v < 20")
    case True
    show ?thesis
      unfolding unf suffix_lt20 [OF v(1) True]
      using ordinal_rule_lt20 [OF v(1) True, of "str ''st''" "str ''nd''" "str ''rd''" "str ''th''"] m10
      by (simp add: concatValue_def v_def [symmetric])
  next
    case False
    then have ge: "20 \<le> v" by simp
    have "v \<notin> {11, 12, 13}" using ge by auto
    then show ?thesis
      unfolding unf suffix_ge20 [OF ge v(2)] using m10
      by (simp add: concatValue_def v_def [symmetric])
  qed
qed

lemma numberToString_1e21: "numberToString 1000000000000000000000 = str ''1e+21''"
  by code_simp

text \<open>
  Claim C5, as stated: for every non-negative integer \<open>n\<close>, \<open>toOrdinal(n)\<close> is the
  decimal representation of \<open>n\<close> followed by the ordinal suffix. It fails for
  \<open>n = 10 ^ 21\<close>, which the source writes in exponent form: the result is \<open>1e+21th\<close>.
\<close>

theorem toOrdinal_exponent_form:
  "toOrdinal (10 ^ 21) = str ''1e+21th''
     \<and> toOrdinal (10 ^ 21) \<noteq> str ''1000000000000000000000th''
     \<and> decimalValue (str ''1000000000000000000000'') = 10 ^ 21"
proof -
  have "toOrdinal 1000000000000000000000 = str ''1e+21'' @ str ''th''"
    using toOrdinal_suffix [of 1000000000000000000000]
    by (simp add: numberToString_1e21)
  then have "toOrdinal (10 ^ 21) = str ''1e+21th''" by (simp add: str_def)
  moreover have "str ''1e+21th'' \<noteq> str ''1000000000000000000000th''"
    by (simp add: str_def)
  moreover have "decimalValue (str ''1000000000000000000000'') = 10 ^ 21"
    by (simp add: decimalValue_def str_def)
  ultimately show ?thesis by simp
qed

text \<open>
  Claim C5, amended. For every integer \<open>n\<close> with \<open>0 \<le> n \<le> 2 ^ 53\<close>, \<open>toOrdinal(n)\<close> is
  the decimal representation of \<open>n\<close> followed by the English ordinal suffix: \<open>th\<close>
  whenever \<open>n mod 100\<close> is 11, 12 or 13; otherwise \<open>st\<close> if the last digit of \<open>n\<close> is 1,
  \<open>nd\<close> if it is 2, \<open>rd\<close> if it is 3, and \<open>th\<close> in all other cases.
\<close>

theorem toOrdinal_english_suffix:
  assumes "0 \<le> n" and "n \<le> 2 ^ 53"
  shows "toOrdinal n = numberToString n @
           (if n mod 100 \<in> {11, 12, 13} then str ''th''
            else if n mod 10 = 1 then str ''st''
            else if n mod 10 = 2 then str ''nd''
            else if n mod 10 = 3 then str ''rd''
            else str ''th'')
       \<and> (\<forall>d \<in> set (numberToString n). 48 \<le> d \<and> d \<le> 57)
       \<and> decimalValue (numberToString n) = n"
proof -
  have s: "numberToString n = digitsOf n" using assms by (rule numberToString_safe)
  have "\<forall>d \<in> set (numberToString n). 48 \<le> d \<and> d \<le> 57"
    unfolding s using assms(1) digitsOf_digits by blast
  moreover have "decimalValue (numberToString n) = n"
    unfolding s using assms(1) by (rule decimalValue_digitsOf)
  ultimately show ?thesis using toOrdinal_suffix [OF assms(1)] by blast
qed

theorem toOrdinal_english_suffix_witness:
  "(0::int) \<le> 112 \<and> (112::int) \<le> 2 ^ 53 \<and> toOrdinal 112 = str ''112th''
     \<and> decimalValue (str ''112'') = 112
     \<and> (0::int) \<le> 23 \<and> (23::int) \<le> 2 ^ 53 \<and> toOrdinal 23 = str ''23rd''"
  using toOrdinal_english_suffix [of 112] toOrdinal_english_suffix [of 23]
    numberToString_safe [of 112] numberToString_safe [of 23]
  by (simp add: digitsOf.simps str_def)

end
